theory Spec2Isabelle
  imports Complex_Main "HOL-Library.Sublist"
begin

section \<open>Python strings\<close>

text \<open>
  The converter of \<^verbatim>\<open>scripts/convert.py\<close> works on Python \<^verbatim>\<open>str\<close> values. They are
  modelled as \<open>string\<close> (a list of 8-bit characters) with Python's behaviour on ASCII text:
  case mapping touches the letters A-Z and a-z only, white space is what \<^verbatim>\<open>str.isspace\<close>
  accepts below code point 128, and a digit is one of 0-9. The model speaks of ASCII text
  only. Outside it Python knows further letters, digits and spaces (\<^verbatim>\<open>str.lower\<close> maps
  the Kelvin sign to k, \<^verbatim>\<open>\s\<close> and \<^verbatim>\<open>str.strip\<close> take the no-break space, \<^verbatim>\<open>\d\<close>
  takes every decimal digit of Unicode, \<^verbatim>\<open>re.IGNORECASE\<close> lets s match the long s), and
  a \<^verbatim>\<open>str\<close> counts code points where a list of bytes counts bytes. The statements below
  whose truth depends on this carry the hypothesis \<open>ascii\<close>.
\<close>

text \<open>ASCII text: the top bit of every character is clear.\<close>

definition ascii :: "string \<Rightarrow> bool" where
  "ascii s = list_all (\<lambda>c. \<not> digit7 c) s"

definition upper_chars :: string where
  "upper_chars = ''ABCDEFGHIJKLMNOPQRSTUVWXYZ''"

definition lower_chars :: string where
  "lower_chars = ''abcdefghijklmnopqrstuvwxyz''"

definition lower_ch :: "char \<Rightarrow> char" where
  "lower_ch c = (case map_of (zip upper_chars lower_chars) c of Some d \<Rightarrow> d | None \<Rightarrow> c)"



text \<open>\<^verbatim>\<open>str.lower()\<close>\<close>

definition lower :: "string \<Rightarrow> string" where
  "lower s = map lower_ch s"

definition digit_chars :: string where
  "digit_chars = ''0123456789''"

definition is_digit :: "char \<Rightarrow> bool" where
  "is_digit c = (c \<in> set digit_chars)"

text \<open>Tab, line feed, vertical tab, form feed, carriage return, the four separators
  0x1C-0x1F and the space.\<close>

definition space_chars :: string where
  "space_chars = [CHR 0x09, CHR 0x0A, CHR 0x0B, CHR 0x0C, CHR 0x0D,
                  CHR 0x1C, CHR 0x1D, CHR 0x1E, CHR 0x1F, CHR 0x20]"

definition is_space :: "char \<Rightarrow> bool" where
  "is_space c = (c \<in> set space_chars)"

text \<open>\<^verbatim>\<open>str.strip()\<close>\<close>

definition strip :: "string \<Rightarrow> string" where
  "strip s = rev (dropWhile is_space (rev (dropWhile is_space s)))"

text \<open>\<^verbatim>\<open>s.startswith(p)\<close>\<close>

fun startswith :: "string \<Rightarrow> string \<Rightarrow> bool" where
  "startswith s [] = True"
| "startswith [] (p # ps) = False"
| "startswith (c # cs) (p # ps) = (c = p \<and> startswith cs ps)"

text \<open>\<^verbatim>\<open>needle in hay\<close>\<close>

fun py_in :: "string \<Rightarrow> string \<Rightarrow> bool" where
  "py_in needle [] = (needle = [])"
| "py_in needle (c # cs) = (startswith (c # cs) needle \<or> py_in needle cs)"



text \<open>\<^verbatim>\<open>sep.join(xs)\<close>\<close>

fun join :: "string \<Rightarrow> string list \<Rightarrow> string" where
  "join sep [] = []"
| "join sep [x] = x"
| "join sep (x # y # ys) = x @ sep @ join sep (y # ys)"



section \<open>Errors and number conversion\<close>

datatype error = KeyError string | ValueError string








section \<open>Regular expressions\<close>

text \<open>
  The fragment of Python's \<^verbatim>\<open>re\<close> syntax that the converter's patterns use: literal
  characters, \<^verbatim>\<open>.\<close>, the escapes \<^verbatim>\<open>\d \s \S\<close>, character sets \<^verbatim>\<open>[...]\<close> and
  \<^verbatim>\<open>[^...]\<close>, the greedy quantifiers \<^verbatim>\<open>* + ?\<close>, the lazy \<^verbatim>\<open>*?\<close>, capturing groups and
  concatenation. The starred and plussed expressions of the converter are all single
  characters or sets, so \<open>Star\<close>, \<open>Plus\<close> and \<open>LazyStar\<close> take an atom. No pattern of the
  converter has a capturing group under \<^verbatim>\<open>?\<close>.
\<close>

datatype cset = CLit char | CDigit | CSpace | CNonSpace

datatype atom = One cset | Dot | OneOf "cset list" | NoneOf "cset list"

datatype re =
    Eps
  | Atom atom
  | Seq re re
  | Star atom
  | Plus atom
  | LazyStar atom
  | Opt re
  | Group re

record flags =
  ignorecase :: bool
  dotall :: bool

definition no_flags :: flags where
  "no_flags = \<lparr>ignorecase = False, dotall = False\<rparr>"

definition flags_I :: flags where
  "flags_I = \<lparr>ignorecase = True, dotall = False\<rparr>"

definition flags_IS :: flags where
  "flags_IS = \<lparr>ignorecase = True, dotall = True\<rparr>"

fun cset_ok :: "flags \<Rightarrow> cset \<Rightarrow> char \<Rightarrow> bool" where
  "cset_ok fl (CLit x) c = (if ignorecase fl then lower_ch c = lower_ch x else c = x)"
| "cset_ok fl CDigit c = is_digit c"
| "cset_ok fl CSpace c = is_space c"
| "cset_ok fl CNonSpace c = (\<not> is_space c)"

fun atom_ok :: "flags \<Rightarrow> atom \<Rightarrow> char \<Rightarrow> bool" where
  "atom_ok fl (One x) c = cset_ok fl x c"
| "atom_ok fl Dot c = (dotall fl \<or> c \<noteq> CHR 0x0A)"
| "atom_ok fl (OneOf xs) c = list_ex (\<lambda>x. cset_ok fl x c) xs"
| "atom_ok fl (NoneOf xs) c = (\<not> list_ex (\<lambda>x. cset_ok fl x c) xs)"

text \<open>
  Python's matcher backtracks. \<open>ms fl r s\<close> lists every way in which \<open>r\<close> matches a prefix
  of \<open>s\<close>, in the order in which the backtracking matcher tries them: each entry is the
  input left after the match and the texts of the capturing groups, in the order of their
  opening parentheses. A greedy quantifier lists its longest match first, a lazy one its
  shortest. The first entry is the match that \<^verbatim>\<open>re\<close> reports at this position.
\<close>

type_synonym outcome = "string \<times> string list"

fun ms :: "flags \<Rightarrow> re \<Rightarrow> string \<Rightarrow> outcome list" where
  "ms fl Eps s = [(s, [])]"
| "ms fl (Atom a) [] = []"
| "ms fl (Atom a) (c # cs) = (if atom_ok fl a c then [(cs, [])] else [])"
| "ms fl (Seq r1 r2) s =
     concat (map (\<lambda>(s1, g1). map (\<lambda>(s2, g2). (s2, g1 @ g2)) (ms fl r2 s1)) (ms fl r1 s))"
| "ms fl (Star a) [] = [([], [])]"
| "ms fl (Star a) (c # cs) =
     (if atom_ok fl a c then ms fl (Star a) cs @ [(c # cs, [])] else [(c # cs, [])])"
| "ms fl (Plus a) [] = []"
| "ms fl (Plus a) (c # cs) = (if atom_ok fl a c then ms fl (Star a) cs else [])"
| "ms fl (LazyStar a) [] = [([], [])]"
| "ms fl (LazyStar a) (c # cs) =
     (c # cs, []) # (if atom_ok fl a c then ms fl (LazyStar a) cs else [])"
| "ms fl (Opt r) s = ms fl r s @ [(s, [])]"
| "ms fl (Group r) s =
     map (\<lambda>(s1, g). (s1, take (length s - length s1) s # g)) (ms fl r s)"

text \<open>Concatenation of several expressions, and a literal string.\<close>

fun seq :: "re list \<Rightarrow> re" where
  "seq [] = Eps"
| "seq (r # rs) = Seq r (seq rs)"

definition lit :: "string \<Rightarrow> re" where
  "lit s = seq (map (\<lambda>c. Atom (One (CLit c))) s)"

text \<open>A match object: \<^verbatim>\<open>m.start()\<close>, \<^verbatim>\<open>m.end()\<close>, and \<^verbatim>\<open>m.group(1)\<close>, \<^verbatim>\<open>m.group(2)\<close>, ...
  as the list \<open>groups\<close>. \<^verbatim>\<open>m.group(0)\<close> is the input between start and end.\<close>

record rmatch =
  mstart :: nat
  mend :: nat
  groups :: "string list"

text \<open>\<open>search_from fl r i s\<close>: the leftmost match in \<open>s\<close>, where \<open>s\<close> begins at offset \<open>i\<close> of
  the whole input.\<close>

fun search_from :: "flags \<Rightarrow> re \<Rightarrow> nat \<Rightarrow> string \<Rightarrow> rmatch option" where
  "search_from fl r i [] =
     (case ms fl r [] of
        (rest, g) # _ \<Rightarrow> Some \<lparr>mstart = i, mend = i, groups = g\<rparr>
      | [] \<Rightarrow> None)"
| "search_from fl r i (c # cs) =
     (case ms fl r (c # cs) of
        (rest, g) # _ \<Rightarrow>
          Some \<lparr>mstart = i, mend = i + (length (c # cs) - length rest), groups = g\<rparr>
      | [] \<Rightarrow> search_from fl r (Suc i) cs)"


text \<open>
  \<^verbatim>\<open>re.finditer(pattern, s, flags)\<close>: the matches from left to right, each search starting
  where the previous match ended. Every pattern of the converter begins with a literal
  character and so never matches the empty string; after an empty match the model moves
  one character on.
\<close>

function finditer_from :: "flags \<Rightarrow> re \<Rightarrow> nat \<Rightarrow> string \<Rightarrow> rmatch list" where
  "finditer_from fl r i s =
     (case search_from fl r i s of
        None \<Rightarrow> []
      | Some m \<Rightarrow>
          (if s = [] then [m]
           else m # finditer_from fl r (max (mend m) (Suc (mstart m)))
                      (drop (max (mend m) (Suc (mstart m)) - i) s)))"
  by pat_completeness auto
termination
proof (relation "measure (\<lambda>(fl, r, i, s). length s)")
  show "wf (measure (\<lambda>(fl, r, i, s). length s))" by simp
next
  fix fl :: flags and r :: re and i :: nat and s :: string and m :: rmatch
  assume found: "search_from fl r i s = Some m" and "s \<noteq> []"
  have "search_from fl r i s = Some m \<Longrightarrow> i \<le> mstart m"
    by (induction fl r i s rule: search_from.induct)
       (auto split: list.splits prod.splits)
  with found \<open>s \<noteq> []\<close>
  show "((fl, r, max (mend m) (Suc (mstart m)),
          drop (max (mend m) (Suc (mstart m)) - i) s), (fl, r, i, s))
        \<in> measure (\<lambda>(fl, r, i, s). length s)"
    by (cases s) auto
qed

declare finditer_from.simps [simp del]

definition finditer :: "flags \<Rightarrow> re \<Rightarrow> string \<Rightarrow> rmatch list" where
  "finditer fl r s = finditer_from fl r 0 s"

text \<open>\<^verbatim>\<open>m.group(0)\<close> of a match in \<open>s\<close>\<close>

definition group0 :: "string \<Rightarrow> rmatch \<Rightarrow> string" where
  "group0 s m = take (mend m - mstart m) (drop (mstart m) s)"

text \<open>\<^verbatim>\<open>m.group(n)\<close> for \<open>n \<ge> 1\<close>\<close>

definition group :: "rmatch \<Rightarrow> nat \<Rightarrow> string" where
  "group m n = groups m ! (n - 1)"

text \<open>\<^verbatim>\<open>re.sub(pattern, repl, s)\<close> for a replacement text without back-references: the text
  between the matches of \<open>finditer\<close>, with \<open>repl\<close> in place of each match.\<close>

fun sub_matches :: "string \<Rightarrow> nat \<Rightarrow> string \<Rightarrow> rmatch list \<Rightarrow> string" where
  "sub_matches repl i s [] = s"
| "sub_matches repl i s (m # ms') =
     take (mstart m - i) s @ repl @ sub_matches repl (mend m) (drop (mend m - i) s) ms'"

definition re_sub :: "flags \<Rightarrow> re \<Rightarrow> string \<Rightarrow> string \<Rightarrow> string" where
  "re_sub fl r repl s = sub_matches repl 0 s (finditer fl r s)"

section \<open>Content extraction\<close>

text \<open>\<^verbatim>\<open><[^>]+>\<close>, the pattern with which the extracted texts are stripped of tags.\<close>

definition tag_pattern :: re where
  "tag_pattern = seq [lit ''<'', Plus (NoneOf [CLit CHR ''>'']), lit ''>'']"

definition strip_tags :: "string \<Rightarrow> string" where
  "strip_tags s = re_sub no_flags tag_pattern [] s"

text \<open>\<^verbatim>\<open>re.sub(r'<[^>]+>', '', x).strip()\<close>\<close>

definition clean :: "string \<Rightarrow> string" where
  "clean s = strip (strip_tags s)"

subsection \<open>Headings\<close>

record heading =
  level :: string
  htext :: string
  position :: nat




subsection \<open>Paragraphs\<close>



subsection \<open>Tables\<close>

record table =
  rows :: "string list list"
  columns :: nat
  tposition :: nat

definition table_pattern :: re where
  "table_pattern =
     seq [lit ''<table'', Star (NoneOf [CLit CHR ''>'']), lit ''>'',
          Group (LazyStar Dot), lit ''</table>'']"

definition row_pattern :: re where
  "row_pattern =
     seq [lit ''<tr'', Star (NoneOf [CLit CHR ''>'']), lit ''>'',
          Group (LazyStar Dot), lit ''</tr>'']"

text \<open>\<^verbatim>\<open><t[dh][^>]*>(.*?)</t[dh]>\<close>\<close>

definition cell_pattern :: re where
  "cell_pattern =
     seq [lit ''<t'', Atom (OneOf [CLit CHR ''d'', CLit CHR ''h'']),
          Star (NoneOf [CLit CHR ''>'']), lit ''>'',
          Group (LazyStar Dot),
          lit ''</t'', Atom (OneOf [CLit CHR ''d'', CLit CHR ''h'']), lit ''>'']"

text \<open>The cells of one row; the cell pattern is searched without \<^verbatim>\<open>re.DOTALL\<close>.\<close>

definition row_cells :: "string \<Rightarrow> string list" where
  "row_cells row_html = map (\<lambda>m. clean (group m 1)) (finditer flags_I cell_pattern row_html)"

text \<open>The rows of one table: the inner loop with its \<^verbatim>\<open>if cells:\<close>.\<close>

definition table_rows :: "string \<Rightarrow> string list list" where
  "table_rows table_html =
     filter (\<lambda>cells. cells \<noteq> [])
       (map (\<lambda>m. row_cells (group m 1)) (finditer flags_IS row_pattern table_html))"

text \<open>The outer loop with its \<^verbatim>\<open>if rows:\<close>; the rows are searched in \<^verbatim>\<open>group(0)\<close> of the
  table match.\<close>

definition extract_tables :: "string \<Rightarrow> table list" where
  "extract_tables html =
     concat (map (\<lambda>m. let rs = table_rows (group0 html m)
                       in if rs \<noteq> []
                          then [\<lparr>rows = rs,
                                 columns = (if rs \<noteq> [] then length (hd rs) else 0),
                                 tposition = mstart m\<rparr>]
                          else [])
               (finditer flags_IS table_pattern html))"

subsection \<open>Pros and cons\<close>







subsection \<open>Rating\<close>









section \<open>Classification\<close>

text \<open>
  The configuration files are JSON objects. \<^verbatim>\<open>platform-metadata.json\<close> maps a platform key
  to an object of string fields; Python keeps the keys in the order of the file, so it is
  an association list. \<^verbatim>\<open>metadata['name']\<close> raises \<open>KeyError\<close> when the object has no
  such field.
\<close>

type_synonym metadata = "(string \<times> string) list"

type_synonym platform_metadata = "(string \<times> metadata) list"

text \<open>\<^verbatim>\<open>d[k]\<close> and \<^verbatim>\<open>d.get(k, default)\<close>\<close>

definition getitem :: "(string \<times> 'v) list \<Rightarrow> string \<Rightarrow> error + 'v" where
  "getitem d k = (case map_of d k of None \<Rightarrow> Inl (KeyError k) | Some v \<Rightarrow> Inr v)"


fun detect_platform_loop :: "platform_metadata \<Rightarrow> string \<Rightarrow> error + string option" where
  "detect_platform_loop [] html_lower = Inr None"
| "detect_platform_loop ((platform_key, metadata) # items) html_lower =
     (case getitem metadata ''name'' of
        Inl e \<Rightarrow> Inl e
      | Inr name \<Rightarrow>
          (let platform_name = lower name
           in if py_in platform_name html_lower \<or> py_in platform_key html_lower
              then Inr (Some platform_key)
              else detect_platform_loop items html_lower))"

definition detect_platform :: "platform_metadata \<Rightarrow> string \<Rightarrow> error + string option" where
  "detect_platform pm html = detect_platform_loop pm (lower html)"


section \<open>Configuration and templates\<close>




section \<open>Fragments\<close>

definition newline :: string where
  "newline = [CHR 0x0A]"



text \<open>\<^verbatim>\<open>'<strong>' in str(row[1]) or 'free' in str(row[1]).lower()\<close>\<close>

definition is_highlighted :: "string \<Rightarrow> bool" where
  "is_highlighted cell = (py_in ''<strong>'' cell \<or> py_in ''free'' (lower cell))"

definition highlight_class :: "string \<Rightarrow> string" where
  \<open>highlight_class cell = (if is_highlighted cell then '' class="highlight"'' else [])\<close>

text \<open>The f-string of one emitted row.\<close>

definition row_html :: "string list \<Rightarrow> string" where
  "row_html row =
     ''            <tr>'' @ newline @
     ''                <td>'' @ row ! 0 @ ''</td>'' @ newline @
     ''                <td'' @ highlight_class (row ! 1) @ ''>'' @ row ! 1 @ ''</td>'' @ newline @
     ''            </tr>''"




section \<open>Template rendering\<close>








section \<open>The pipeline\<close>






section \<open>Notions of the specification\<close>

text \<open>
  The words that match an expression, without any order of preference: what it means for
  a pattern to occur in a text, independently of the backtracking matcher.
\<close>

fun lang :: "flags \<Rightarrow> re \<Rightarrow> string set" where
  "lang fl Eps = {[]}"
| "lang fl (Atom a) = {[c] | c. atom_ok fl a c}"
| "lang fl (Seq r1 r2) = {u @ v | u v. u \<in> lang fl r1 \<and> v \<in> lang fl r2}"
| "lang fl (Star a) = {w. list_all (atom_ok fl a) w}"
| "lang fl (Plus a) = {w. w \<noteq> [] \<and> list_all (atom_ok fl a) w}"
| "lang fl (LazyStar a) = {w. list_all (atom_ok fl a) w}"
| "lang fl (Opt r) = insert [] (lang fl r)"
| "lang fl (Group r) = lang fl r"

text \<open>The pattern occurs in the text: some substring of the text matches it.\<close>

definition occurs :: "flags \<Rightarrow> re \<Rightarrow> string \<Rightarrow> bool" where
  "occurs fl r s = (\<exists>pre w post. s = pre @ w @ post \<and> w \<in> lang fl r)"


text \<open>An expression without capturing groups.\<close>

fun group_free :: "re \<Rightarrow> bool" where
  "group_free (Group r) = False"
| "group_free (Seq r1 r2) = (group_free r1 \<and> group_free r2)"
| "group_free (Opt r) = group_free r"
| "group_free r = True"

text \<open>The concatenated heading text of the page-type rules.\<close>

definition heading_text :: "heading list \<Rightarrow> string" where
  "heading_text hs = join '' '' (map htext hs)"

section \<open>The matcher against the language of an expression\<close>

text \<open>What is left in the list of a sequence, a group and an option.\<close>

lemma in_ms_Seq:
  "(rest, g) \<in> set (ms fl (Seq r1 r2) s) \<longleftrightarrow>
     (\<exists>s1 g1 g2. (s1, g1) \<in> set (ms fl r1 s) \<and> (rest, g2) \<in> set (ms fl r2 s1) \<and> g = g1 @ g2)"
  by (force simp: image_iff)

lemma in_ms_Group:
  "(rest, g) \<in> set (ms fl (Group r) s) \<longleftrightarrow>
     (\<exists>g'. (rest, g') \<in> set (ms fl r s) \<and> g = take (length s - length rest) s # g')"
  by (force simp: image_iff)

lemma in_ms_Opt:
  "(rest, g) \<in> set (ms fl (Opt r) s) \<longleftrightarrow> (rest, g) \<in> set (ms fl r s) \<or> (rest = s \<and> g = [])"
  by auto

lemma ms_Star_sound:
  "(rest, g) \<in> set (ms fl (Star a) s) \<Longrightarrow> g = [] \<and> (\<exists>w. list_all (atom_ok fl a) w \<and> s = w @ rest)"
proof (induction s)
  case Nil
  then show ?case by simp
next
  case (Cons c cs)
  show ?case
  proof (cases "atom_ok fl a c \<and> (rest, g) \<in> set (ms fl (Star a) cs)")
    case True
    with Cons.IH obtain w where "g = []" "list_all (atom_ok fl a) w" "cs = w @ rest" by auto
    with True have "list_all (atom_ok fl a) (c # w) \<and> c # cs = (c # w) @ rest" by simp
    with \<open>g = []\<close> show ?thesis by blast
  next
    case False
    with Cons.prems have "rest = c # cs \<and> g = []" by (auto split: if_splits)
    then show ?thesis by simp
  qed
qed

lemma ms_LazyStar_sound:
  "(rest, g) \<in> set (ms fl (LazyStar a) s) \<Longrightarrow> g = [] \<and> (\<exists>w. list_all (atom_ok fl a) w \<and> s = w @ rest)"
proof (induction s)
  case Nil
  then show ?case by simp
next
  case (Cons c cs)
  show ?case
  proof (cases "atom_ok fl a c \<and> (rest, g) \<in> set (ms fl (LazyStar a) cs)")
    case True
    with Cons.IH obtain w where "g = []" "list_all (atom_ok fl a) w" "cs = w @ rest" by auto
    with True have "list_all (atom_ok fl a) (c # w) \<and> c # cs = (c # w) @ rest" by simp
    with \<open>g = []\<close> show ?thesis by blast
  next
    case False
    with Cons.prems have "rest = c # cs \<and> g = []" by (auto split: if_splits)
    then show ?thesis by simp
  qed
qed

lemma ms_Plus_sound:
  assumes "(rest, g) \<in> set (ms fl (Plus a) s)"
  shows "g = [] \<and> (\<exists>w. w \<noteq> [] \<and> list_all (atom_ok fl a) w \<and> s = w @ rest)"
proof (cases s)
  case Nil
  with assms show ?thesis by simp
next
  case (Cons c cs)
  with assms have ok: "atom_ok fl a c" and m: "(rest, g) \<in> set (ms fl (Star a) cs)"
    by (auto split: if_splits)
  from ms_Star_sound[OF m] obtain w where "g = []" "list_all (atom_ok fl a) w" "cs = w @ rest"
    by auto
  with ok Cons have "c # w \<noteq> [] \<and> list_all (atom_ok fl a) (c # w) \<and> s = (c # w) @ rest" by simp
  with \<open>g = []\<close> show ?thesis by blast
qed

lemma ms_sound: "(rest, g) \<in> set (ms fl r s) \<Longrightarrow> \<exists>w \<in> lang fl r. s = w @ rest"
proof (induction r arbitrary: s rest g)
  case Eps
  then show ?case by simp
next
  case (Atom a)
  then show ?case by (cases s) (auto split: if_splits)
next
  case (Seq r1 r2)
  from Seq.prems obtain s1 g1 g2 where a: "(s1, g1) \<in> set (ms fl r1 s)" and b: "(rest, g2) \<in> set (ms fl r2 s1)"
    unfolding in_ms_Seq by blast
  from Seq.IH(1)[OF a] obtain u where u: "u \<in> lang fl r1" "s = u @ s1" by auto
  from Seq.IH(2)[OF b] obtain v where v: "v \<in> lang fl r2" "s1 = v @ rest" by auto
  from u v have "u @ v \<in> lang fl (Seq r1 r2) \<and> s = (u @ v) @ rest" by auto
  then show ?case by blast
next
  case (Star a)
  from ms_Star_sound[OF Star] show ?case by auto
next
  case (Plus a)
  from ms_Plus_sound[OF Plus] show ?case by auto
next
  case (LazyStar a)
  from ms_LazyStar_sound[OF LazyStar] show ?case by auto
next
  case (Opt r)
  from Opt.prems have "(rest, g) \<in> set (ms fl r s) \<or> rest = s" unfolding in_ms_Opt by blast
  then show ?case
  proof
    assume "(rest, g) \<in> set (ms fl r s)"
    from Opt.IH[OF this] show ?thesis by auto
  next
    assume "rest = s"
    then show ?thesis by simp
  qed
next
  case (Group r)
  from Group.prems obtain g' where "(rest, g') \<in> set (ms fl r s)" unfolding in_ms_Group by blast
  from Group.IH[OF this] show ?case by simp
qed

lemma ms_Star_complete:
  "list_all (atom_ok fl a) w \<Longrightarrow> (rest, []) \<in> set (ms fl (Star a) (w @ rest))"
proof (induction w)
  case Nil
  show ?case by (cases rest) auto
next
  case (Cons c w)
  then show ?case by simp
qed

lemma ms_LazyStar_complete:
  "list_all (atom_ok fl a) w \<Longrightarrow> (rest, []) \<in> set (ms fl (LazyStar a) (w @ rest))"
proof (induction w)
  case Nil
  show ?case by (cases rest) auto
next
  case (Cons c w)
  then show ?case by simp
qed

lemma ms_complete: "w \<in> lang fl r \<Longrightarrow> \<exists>g. (rest, g) \<in> set (ms fl r (w @ rest))"
proof (induction r arbitrary: w rest)
  case Eps
  then show ?case by simp
next
  case (Atom a)
  then show ?case by auto
next
  case (Seq r1 r2)
  from Seq.prems obtain u v where w: "w = u @ v" and u: "u \<in> lang fl r1" and v: "v \<in> lang fl r2" by auto
  from Seq.IH(2)[OF v] obtain g2 where g2: "(rest, g2) \<in> set (ms fl r2 (v @ rest))" by blast
  from Seq.IH(1)[OF u] obtain g1 where g1: "(v @ rest, g1) \<in> set (ms fl r1 (u @ v @ rest))" by blast
  from g1 g2 have "(rest, g1 @ g2) \<in> set (ms fl (Seq r1 r2) (w @ rest))"
    unfolding w in_ms_Seq by auto
  then show ?case by blast
next
  case (Star a)
  then have "list_all (atom_ok fl a) w" by simp
  from ms_Star_complete[OF this] show ?case by blast
next
  case (Plus a)
  then obtain c w' where w: "w = c # w'" by (cases w) auto
  with Plus have "atom_ok fl a c" "list_all (atom_ok fl a) w'" by simp_all
  with ms_Star_complete[of fl a w' rest] have "(rest, []) \<in> set (ms fl (Plus a) (w @ rest))"
    unfolding w by simp
  then show ?case by blast
next
  case (LazyStar a)
  then have "list_all (atom_ok fl a) w" by simp
  from ms_LazyStar_complete[OF this] show ?case by blast
next
  case (Opt r)
  show ?case
  proof (cases "w \<in> lang fl r")
    case False
    with Opt.prems have "w = []" by simp
    then have "(rest, []) \<in> set (ms fl (Opt r) (w @ rest))" unfolding in_ms_Opt by simp
    then show ?thesis by blast
  next
    case True
    from Opt.IH[OF this] obtain g where "(rest, g) \<in> set (ms fl r (w @ rest))" by blast
    then have "(rest, g) \<in> set (ms fl (Opt r) (w @ rest))" unfolding in_ms_Opt by simp
    then show ?thesis by blast
  qed
next
  case (Group r)
  then have "w \<in> lang fl r" by simp
  from Group.IH[OF this] obtain g where "(rest, g) \<in> set (ms fl r (w @ rest))" by blast
  then have "(rest, take (length (w @ rest) - length rest) (w @ rest) # g) \<in> set (ms fl (Group r) (w @ rest))"
    unfolding in_ms_Group by blast
  then show ?case by blast
qed



section \<open>Searching\<close>

lemma ms_nonempty_iff: "ms fl r s \<noteq> [] \<longleftrightarrow> (\<exists>w rest. s = w @ rest \<and> w \<in> lang fl r)"
proof
  assume "ms fl r s \<noteq> []"
  then obtain rest g where "(rest, g) \<in> set (ms fl r s)" by (cases "ms fl r s") auto
  from ms_sound[OF this] show "\<exists>w rest. s = w @ rest \<and> w \<in> lang fl r" by blast
next
  assume "\<exists>w rest. s = w @ rest \<and> w \<in> lang fl r"
  then obtain w rest where "s = w @ rest" "w \<in> lang fl r" by blast
  with ms_complete[of w fl r rest] show "ms fl r s \<noteq> []" by auto
qed

lemma occurs_Nil: "occurs fl r [] \<longleftrightarrow> ms fl r [] \<noteq> []"
  by (simp add: occurs_def ms_nonempty_iff)

lemma occurs_Cons: "occurs fl r (c # cs) \<longleftrightarrow> ms fl r (c # cs) \<noteq> [] \<or> occurs fl r cs"
proof
  assume "occurs fl r (c # cs)"
  then obtain pre w post where d: "c # cs = pre @ w @ post" and w: "w \<in> lang fl r"
    unfolding occurs_def by blast
  show "ms fl r (c # cs) \<noteq> [] \<or> occurs fl r cs"
  proof (cases pre)
    case Nil
    with d w show ?thesis unfolding ms_nonempty_iff by auto
  next
    case (Cons p ps)
    with d w have "cs = ps @ w @ post" by simp
    with w show ?thesis unfolding occurs_def by blast
  qed
next
  assume "ms fl r (c # cs) \<noteq> [] \<or> occurs fl r cs"
  then show "occurs fl r (c # cs)"
  proof
    assume "ms fl r (c # cs) \<noteq> []"
    then obtain w rest where "c # cs = [] @ w @ rest" "w \<in> lang fl r"
      unfolding ms_nonempty_iff by auto
    then show ?thesis unfolding occurs_def by blast
  next
    assume "occurs fl r cs"
    then obtain pre w post where "cs = pre @ w @ post" "w \<in> lang fl r"
      unfolding occurs_def by blast
    then have "c # cs = (c # pre) @ w @ post" by simp
    with \<open>w \<in> lang fl r\<close> show ?thesis unfolding occurs_def by blast
  qed
qed

lemma search_from_None_iff: "search_from fl r i s = None \<longleftrightarrow> \<not> occurs fl r s"
proof (induction s arbitrary: i)
  case Nil
  show ?case by (simp add: occurs_Nil split: list.splits)
next
  case (Cons c cs)
  show ?case
  proof (cases "ms fl r (c # cs)")
    case Nil
    with Cons show ?thesis by (simp add: occurs_Cons)
  next
    case (Cons o1 os)
    then show ?thesis by (simp add: occurs_Cons split: prod.splits)
  qed
qed


lemma finditer_from_absent:
  assumes "\<not> occurs fl r s"
  shows "finditer_from fl r i s = []"
proof -
  from assms have "search_from fl r i s = None" by (simp add: search_from_None_iff)
  then show ?thesis by (subst finditer_from.simps) simp
qed

lemma finditer_absent: "\<not> occurs fl r s \<Longrightarrow> finditer fl r s = []"
  by (simp add: finditer_def finditer_from_absent)


text \<open>A prefix at none of whose characters the pattern can begin is skipped.\<close>

lemma search_from_skip:
  "(\<forall>c \<in> set pre. \<forall>cs. ms fl r (c # cs) = []) \<Longrightarrow>
     search_from fl r i (pre @ t) = search_from fl r (i + length pre) t"
  by (induction pre arbitrary: i) auto

lemma ms_Star_stop: "s = [] \<or> \<not> atom_ok fl a (hd s) \<Longrightarrow> ms fl (Star a) s = [(s, [])]"
  by (cases s) auto

lemma group_free_groups: "group_free r \<Longrightarrow> (rest, g) \<in> set (ms fl r s) \<Longrightarrow> g = []"
proof (induction r arbitrary: s rest g)
  case (Seq r1 r2)
  from Seq.prems(2) obtain s1 g1 g2 where "(s1, g1) \<in> set (ms fl r1 s)" "(rest, g2) \<in> set (ms fl r2 s1)" "g = g1 @ g2"
    unfolding in_ms_Seq by blast
  with Seq.IH Seq.prems(1) show ?case by auto
next
  case (Star a)
  then show ?case using ms_Star_sound by blast
next
  case (Plus a)
  then show ?case using ms_Plus_sound by blast
next
  case (LazyStar a)
  then show ?case using ms_LazyStar_sound by blast
next
  case (Opt r)
  then show ?case unfolding in_ms_Opt by auto
next
  case (Atom a)
  then show ?case by (cases s) (auto split: if_splits)
qed auto

section \<open>Platform detection\<close>

text \<open>
  C9. The spec lets \<open>detect_platform\<close> search the document case-insensitively for each
  platform's display name or its key. The code lower-cases the document and the name, but
  not the key: a key with an upper-case letter is compared as it is with the lower-cased
  document and can never be found. Here the document contains the key \<open>Foo\<close> literally,
  and no platform is detected.
\<close>

theorem detect_platform_key_not_lowered:
  "detect_platform [(''Foo'', [(''name'', ''Bar Casino'')])] ''Welcome to Foo'' = Inr None"
  by code_simp

section \<open>Strings\<close>



lemma lower_append: "lower (a @ b) = lower a @ lower b"
  by (simp add: lower_def)

lemma lower_ch_idem: "lower_ch (lower_ch c) = lower_ch c"
proof -
  have "\<forall>d \<in> set lower_chars. map_of (zip upper_chars lower_chars) d = None"
    by code_simp
  moreover have "map_of (zip upper_chars lower_chars) c = Some d \<Longrightarrow> d \<in> set lower_chars" for d
    by (drule map_of_SomeD) (auto dest: set_zip_rightD)
  ultimately show ?thesis
    by (auto simp: lower_ch_def split: option.splits)
qed

lemma lower_idem: "lower (lower s) = lower s"
  by (simp add: lower_def lower_ch_idem)


lemma lower_join: "lower (join sep xs) = join (lower sep) (map lower xs)"
  by (induction sep xs rule: join.induct) (simp_all add: lower_append lower_def)

lemma lower_heading_text:
  "join '' '' (map (\<lambda>h. lower (htext h)) hs) = lower (heading_text hs)"
proof -
  have "lower '' '' = '' ''" by code_simp
  then show ?thesis
    by (simp add: heading_text_def lower_join comp_def)
qed

section \<open>Tables\<close>

lemma rows_extract_tables:
  "map rows (concat (map (\<lambda>m. let rs = f m
                              in if rs \<noteq> []
                                 then [\<lparr>rows = rs,
                                        columns = (if rs \<noteq> [] then length (hd rs) else 0),
                                        tposition = mstart m\<rparr>]
                                 else []) ms')) =
   filter (\<lambda>rs. rs \<noteq> []) (map f ms')"
  by (induction ms') (simp_all add: Let_def)

text \<open>
  C7. For every table that \<open>extract_tables\<close> returns: a row without cells is dropped, a
  table without surviving rows is dropped, and the column count is the number of cells of
  the first surviving row only; rows of other lengths stay as they are. The rows of the
  result are exactly the non-empty cell lists of the matched rows, in their order, and the
  tables of the result exactly the matched tables that keep a row. The example has a row
  of one cell, a row without cells and a row of two cells.
\<close>

theorem extract_tables_rows:
  "(\<forall>t \<in> set (extract_tables html).
      rows t \<noteq> [] \<and> (\<forall>row \<in> set (rows t). row \<noteq> []) \<and> columns t = length (hd (rows t)))
   \<and> map rows (extract_tables html) =
       filter (\<lambda>rs. rs \<noteq> [])
         (map (\<lambda>m. filter (\<lambda>cells. cells \<noteq> [])
                      (map (\<lambda>rm. row_cells (group rm 1))
                         (finditer flags_IS row_pattern (group0 html m))))
            (finditer flags_IS table_pattern html))
   \<and> extract_tables ''<table><tr><td>a</td></tr><tr></tr><tr><td>b</td><td>c</td></tr></table>'' =
       [\<lparr>rows = [[''a''], [''b'', ''c'']], columns = 1, tposition = 0\<rparr>]"
proof (intro conjI ballI)
  fix t assume "t \<in> set (extract_tables html)"
  then obtain m where t: "t = \<lparr>rows = table_rows (group0 html m),
       columns = length (hd (table_rows (group0 html m))), tposition = mstart m\<rparr>"
    and ne: "table_rows (group0 html m) \<noteq> []"
    unfolding extract_tables_def by (auto simp: Let_def split: if_splits)
  from t ne show "rows t \<noteq> []" by simp
  from t show "columns t = length (hd (rows t))" by simp
  fix row assume "row \<in> set (rows t)"
  with t show "row \<noteq> []" by (auto simp: table_rows_def)
next
  show "map rows (extract_tables html) =
       filter (\<lambda>rs. rs \<noteq> [])
         (map (\<lambda>m. filter (\<lambda>cells. cells \<noteq> [])
                      (map (\<lambda>rm. row_cells (group rm 1))
                         (finditer flags_IS row_pattern (group0 html m))))
            (finditer flags_IS table_pattern html))"
    unfolding extract_tables_def rows_extract_tables table_rows_def ..
next
  show "extract_tables ''<table><tr><td>a</td></tr><tr></tr><tr><td>b</td><td>c</td></tr></table>'' =
       [\<lparr>rows = [[''a''], [''b'', ''c'']], columns = 1, tposition = 0\<rparr>]"
    by code_simp
qed

theorem extract_tables_rows_witness:
  "extract_tables ''<table></table><table><tr><td>a</td></tr></table>'' = [\<lparr>rows = [[''a'']], columns = 1, tposition = 15\<rparr>]
   \<and> hd (extract_tables ''<table></table><table><tr><td>a</td></tr></table>'') \<in> set (extract_tables ''<table></table><table><tr><td>a</td></tr></table>'')
   \<and> rows (hd (extract_tables ''<table></table><table><tr><td>a</td></tr></table>'')) \<noteq> []
   \<and> [] \<notin> set (rows (hd (extract_tables ''<table></table><table><tr><td>a</td></tr></table>'')))
   \<and> columns (hd (extract_tables ''<table></table><table><tr><td>a</td></tr></table>'')) = length (hd (rows (hd (extract_tables ''<table></table><table><tr><td>a</td></tr></table>''))))"
proof -
  have e: "extract_tables ''<table></table><table><tr><td>a</td></tr></table>'' = [\<lparr>rows = [[''a'']], columns = 1, tposition = 15\<rparr>]"
    by code_simp
  then have m: "hd (extract_tables ''<table></table><table><tr><td>a</td></tr></table>'') \<in> set (extract_tables ''<table></table><table><tr><td>a</td></tr></table>'')" by simp
  from extract_tables_rows[of "''<table></table><table><tr><td>a</td></tr></table>''"]
  have "\<forall>t \<in> set (extract_tables ''<table></table><table><tr><td>a</td></tr></table>'').
      rows t \<noteq> [] \<and> (\<forall>row \<in> set (rows t). row \<noteq> []) \<and> columns t = length (hd (rows t))"
    by (rule conjunct1)
  from this m have "rows (hd (extract_tables ''<table></table><table><tr><td>a</td></tr></table>'')) \<noteq> []
     \<and> (\<forall>row \<in> set (rows (hd (extract_tables ''<table></table><table><tr><td>a</td></tr></table>''))). row \<noteq> [])
     \<and> columns (hd (extract_tables ''<table></table><table><tr><td>a</td></tr></table>'')) = length (hd (rows (hd (extract_tables ''<table></table><table><tr><td>a</td></tr></table>''))))"
    by (rule bspec)
  with e m show ?thesis by blast
qed

section \<open>Quick-facts table\<close>




section \<open>Template rendering\<close>













end
